theory Spec2Isabelle
  imports Main "HOL-Library.Word"
begin

section \<open>JavaScript strings\<close>

text \<open>
  A JavaScript string is a sequence of 16-bit code units. The two built-ins the scripts
  screen uses, \<^verbatim>\<open>String.prototype.trim\<close> and \<^verbatim>\<open>split(/\s+/)\<close>, work on code units
  (the regular expression has no \<^verbatim>\<open>u\<close> flag), and both use the same class of characters:
  ECMAScript's WhiteSpace and LineTerminator productions.
\<close>

type_synonym jsstring = "16 word list"

definition utf16 :: "string \<Rightarrow> jsstring" where
  \<comment> \<open>the code units of an ASCII literal\<close>
  "utf16 cs = map (\<lambda>c. of_nat (of_char c)) cs"

definition is_whitespace :: "16 word \<Rightarrow> bool" where
  "is_whitespace c \<longleftrightarrow>
     c = 0x9 \<or> c = 0xA \<or> c = 0xB \<or> c = 0xC \<or> c = 0xD \<or> c = 0x20 \<or> c = 0xA0
     \<or> c = 0x1680 \<or> (0x2000 \<le> c \<and> c \<le> 0x200A) \<or> c = 0x2028 \<or> c = 0x2029
     \<or> c = 0x202F \<or> c = 0x205F \<or> c = 0x3000 \<or> c = 0xFEFF"

definition trim :: "jsstring \<Rightarrow> jsstring" where
  "trim s = rev (dropWhile is_whitespace (rev (dropWhile is_whitespace s)))"

text \<open>
  \<^verbatim>\<open>s.split(/\s+/)\<close>: the string is scanned from the left; at the first whitespace code
  unit the piece read so far is emitted (it is empty when the string starts with
  whitespace) and the whole run of whitespace is skipped, since \<^verbatim>\<open>\s+\<close> is greedy; the
  rest of the string after the last run is the last piece (empty when the string ends
  with whitespace, and the only piece when there is no whitespace, also for the empty
  string).
\<close>

function split_ws :: "jsstring \<Rightarrow> jsstring list" where
  "split_ws s =
     (case dropWhile (\<lambda>c. \<not> is_whitespace c) s of
        [] \<Rightarrow> [s]
      | c # rest \<Rightarrow>
          takeWhile (\<lambda>c. \<not> is_whitespace c) s # split_ws (dropWhile is_whitespace rest))"
  by pat_completeness auto
termination
proof (relation "measure length")
  show "wf (measure length)" by simp
next
  fix s :: jsstring and c rest
  assume "dropWhile (\<lambda>c. \<not> is_whitespace c) s = c # rest"
  then have "length (c # rest) \<le> length s"
    by (metis length_dropWhile_le)
  moreover have "length (dropWhile is_whitespace rest) \<le> length rest"
    by (rule length_dropWhile_le)
  ultimately show "(dropWhile is_whitespace rest, s) \<in> measure length"
    by simp
qed

declare split_ws.simps [simp del]

section \<open>The scripts screen (src/app/(tabs)/index.tsx)\<close>

record script =
  id' :: jsstring
  title :: jsstring
  content :: jsstring
  createdAt :: jsstring
  wordCount :: int

text \<open>
  The state of \<^verbatim>\<open>ScriptsScreen\<close>: its five \<^verbatim>\<open>useState\<close> cells (the cells \<^verbatim>\<open>title\<close> and
  \<^verbatim>\<open>content\<close> are \<open>title_state\<close> and \<open>content_state\<close> here, the plain names being the
  fields of a script), the value stored under the key \<^verbatim>\<open>teleprompter_scripts\<close> of
  AsyncStorage (\<open>None\<close> while the key is absent), and the alerts shown so far, each a
  title and a message.
\<close>

record scripts_screen =
  scripts :: "script list"
  modalVisible :: bool
  editingScript :: "script option"
  title_state :: jsstring
  content_state :: jsstring
  stored_scripts :: "script list option"
  scripts_alerts :: "(string \<times> string) list"

text \<open>
  What a call reads from the clock: \<^verbatim>\<open>Date.now().toString()\<close> and
  \<^verbatim>\<open>new Date().toISOString()\<close>.
\<close>

record clock_reading =
  now_string :: jsstring
  now_iso :: jsstring

definition saveScripts :: "bool \<Rightarrow> script list \<Rightarrow> scripts_screen \<Rightarrow> scripts_screen" where
  \<comment> \<open>\<open>write_ok\<close>: \<^verbatim>\<open>AsyncStorage.setItem\<close> resolves; when it rejects the error is only
      logged to the console and \<^verbatim>\<open>setScripts\<close> is not reached\<close>
  "saveScripts write_ok updatedScripts s =
     (if write_ok then s\<lparr>stored_scripts := Some updatedScripts, scripts := updatedScripts\<rparr>
      else s)"

definition createScript :: "scripts_screen \<Rightarrow> scripts_screen" where
  "createScript s =
     s\<lparr>editingScript := None, title_state := [], content_state := [], modalVisible := True\<rparr>"

definition editScript :: "script \<Rightarrow> scripts_screen \<Rightarrow> scripts_screen" where
  "editScript sc s =
     s\<lparr>editingScript := Some sc, title_state := title sc, content_state := content sc,
       modalVisible := True\<rparr>"

definition saveScript :: "clock_reading \<Rightarrow> bool \<Rightarrow> scripts_screen \<Rightarrow> scripts_screen" where
  "saveScript clk write_ok s =
     (if trim (title_state s) = [] \<or> trim (content_state s) = [] then
        s\<lparr>scripts_alerts :=
            scripts_alerts s @ [(''Error'', ''Please enter both title and content'')]\<rparr>
      else
        let wc = int (length (split_ws (trim (content_state s))));
            now = now_iso clk;
            s1 = (case editingScript s of
                    Some editing \<Rightarrow>
                      saveScripts write_ok
                        (map (\<lambda>sc. if id' sc = id' editing
                                    then sc\<lparr>title := title_state s, content := content_state s,
                                            wordCount := wc\<rparr>
                                    else sc)
                             (scripts s)) s
                  | None \<Rightarrow>
                      saveScripts write_ok
                        (scripts s @
                           [\<lparr>id' = now_string clk, title = title_state s,
                             content = content_state s, createdAt = now, wordCount = wc\<rparr>]) s)
        in s1\<lparr>modalVisible := False, title_state := [], content_state := [],
              editingScript := None\<rparr>)"

section \<open>The teleprompter screen (TeleprompterScreen, the version with the recording status)\<close>

subsection \<open>State\<close>

datatype recording_status = Idle | Recording | Saving | Saved | Error
  \<comment> \<open>the five strings \<^verbatim>\<open>recordingStatus\<close> is ever set to\<close>

text \<open>
  The callbacks handed to \<^verbatim>\<open>setInterval\<close> and \<^verbatim>\<open>setTimeout\<close>. The closure of the
  auto-scroll interval owns the local variable \<^verbatim>\<open>scrollPosition\<close> and holds the value
  \<^verbatim>\<open>scrollSpeed\<close> had in the render whose \<^verbatim>\<open>startAutoScroll\<close> created it.
\<close>

datatype callback =
    ScrollTick int int
  | RecordingTick
  | StatusIdle

record timer =
  callback :: callback
  delay :: nat
  repeats :: bool
  due :: nat

record video =
  uri :: jsstring

datatype thrown = ErrorObject string | NotAnError

datatype 'a settled = Resolved 'a | Rejected thrown

text \<open>
  The twelve \<^verbatim>\<open>useState\<close> cells, the refs, and the part of the environment the screen
  acts on: the table of live timers (handles are numbers, and truthy), the clock read by
  \<^verbatim>\<open>Date.now()\<close> in milliseconds, and the alerts shown so far. \<open>cameraRef\<close> says whether
  \<^verbatim>\<open>cameraRef.current\<close> is set; \<open>scrollViewRef\<close> is \<open>None\<close> while \<^verbatim>\<open>scrollViewRef.current\<close>
  is null and otherwise holds the vertical offset the mounted scroll view was last sent to.
\<close>

record teleprompter =
  selectedScript :: "script option"
  isRecording :: bool
  hasCameraPermission :: "bool option"
  hasAudioPermission :: "bool option"
  hasMediaLibraryPermission :: "bool option"
  scrollSpeed :: int
  fontSize :: int
  isScrolling :: bool
  cameraReady :: bool
  recordingStatus :: recording_status
  recordingDuration :: int
  cameraKey :: int
  cameraRef :: bool
  scrollViewRef :: "int option"
  scrollIntervalRef :: "nat option"
  recordingTimerRef :: "nat option"
  recordingStartTime :: nat
  timers :: "nat \<rightharpoonup> timer"
  next_timer :: nat
  now :: nat
  alerts :: "(string \<times> string) list"

definition initial :: teleprompter where
  "initial =
     \<lparr>selectedScript = None, isRecording = False, hasCameraPermission = None,
      hasAudioPermission = None, hasMediaLibraryPermission = None, scrollSpeed = 2,
      fontSize = 24, isScrolling = False, cameraReady = False, recordingStatus = Idle,
      recordingDuration = 0, cameraKey = 0, cameraRef = False, scrollViewRef = None,
      scrollIntervalRef = None, recordingTimerRef = None, recordingStartTime = 0,
      timers = Map.empty, next_timer = 1, now = 0, alerts = []\<rparr>"

subsection \<open>Timers and alerts\<close>

definition setInterval :: "callback \<Rightarrow> nat \<Rightarrow> teleprompter \<Rightarrow> teleprompter" where
  \<comment> \<open>the handle returned is \<open>next_timer\<close> of the state before the call\<close>
  "setInterval cb ms s =
     s\<lparr>timers := (timers s)(next_timer s \<mapsto>
            \<lparr>callback = cb, delay = ms, repeats = True, due = now s + ms\<rparr>),
       next_timer := next_timer s + 1\<rparr>"

definition setTimeout :: "callback \<Rightarrow> nat \<Rightarrow> teleprompter \<Rightarrow> teleprompter" where
  "setTimeout cb ms s =
     s\<lparr>timers := (timers s)(next_timer s \<mapsto>
            \<lparr>callback = cb, delay = ms, repeats = False, due = now s + ms\<rparr>),
       next_timer := next_timer s + 1\<rparr>"

definition clearInterval :: "nat \<Rightarrow> teleprompter \<Rightarrow> teleprompter" where
  "clearInterval h s = s\<lparr>timers := (timers s)(h := None)\<rparr>"

definition alert :: "string \<Rightarrow> string \<Rightarrow> teleprompter \<Rightarrow> teleprompter" where
  "alert ttl msg s = s\<lparr>alerts := alerts s @ [(ttl, msg)]\<rparr>"

definition scrollTo :: "int \<Rightarrow> teleprompter \<Rightarrow> teleprompter" where
  \<comment> \<open>\<^verbatim>\<open>scrollViewRef.current?.scrollTo({ y, animated: true })\<close>\<close>
  "scrollTo y s = s\<lparr>scrollViewRef := map_option (\<lambda>_. y) (scrollViewRef s)\<rparr>"

definition truthy :: "bool option \<Rightarrow> bool" where
  \<comment> \<open>a \<^verbatim>\<open>boolean | null\<close> cell under \<^verbatim>\<open>!\<close>\<close>
  "truthy b \<longleftrightarrow> b = Some True"

primrec starts_with :: "string \<Rightarrow> string \<Rightarrow> bool" where
  "starts_with hay [] = True"
| "starts_with hay (c # cs) = (case hay of [] \<Rightarrow> False | h # hs \<Rightarrow> h = c \<and> starts_with hs cs)"

primrec includes_str :: "string \<Rightarrow> string \<Rightarrow> bool" where
  "includes_str [] pat = (pat = [])"
| "includes_str (h # hs) pat = (starts_with (h # hs) pat \<or> includes_str hs pat)"

subsection \<open>Permissions, script, camera\<close>

definition requestPermissions_done :: "bool \<Rightarrow> bool \<Rightarrow> bool \<Rightarrow> teleprompter \<Rightarrow> teleprompter" where
  \<comment> \<open>the three setters after the three awaits; the arguments are what was granted\<close>
  "requestPermissions_done cam aud media s =
     s\<lparr>hasCameraPermission := Some cam, hasAudioPermission := Some aud,
       hasMediaLibraryPermission := Some media\<rparr>"

definition loadSelectedScript_done :: "script option \<Rightarrow> teleprompter \<Rightarrow> teleprompter" where
  \<comment> \<open>\<open>None\<close>: the key is absent, or reading or parsing it threw (logged only)\<close>
  "loadSelectedScript_done r s =
     (case r of Some sc \<Rightarrow> s\<lparr>selectedScript := Some sc\<rparr> | None \<Rightarrow> s)"

definition onCameraReady :: "teleprompter \<Rightarrow> teleprompter" where
  "onCameraReady s = s\<lparr>cameraReady := True\<rparr>"

subsection \<open>Recording\<close>

definition startRecordingTimer :: "teleprompter \<Rightarrow> teleprompter" where
  "startRecordingTimer s =
     (let s1 = s\<lparr>recordingStartTime := now s, recordingDuration := 0\<rparr>
      in (setInterval RecordingTick 100 s1)\<lparr>recordingTimerRef := Some (next_timer s1)\<rparr>)"

definition stopRecordingTimer :: "teleprompter \<Rightarrow> teleprompter" where
  "stopRecordingTimer s =
     (case recordingTimerRef s of
        Some h \<Rightarrow> (clearInterval h s)\<lparr>recordingTimerRef := None\<rparr>
      | None \<Rightarrow> s)"

definition startRecording :: "teleprompter \<Rightarrow> teleprompter" where
  \<comment> \<open>up to the call of \<^verbatim>\<open>recordAsync\<close>, whose promise the function then awaits\<close>
  "startRecording s =
     (if \<not> cameraRef s then alert ''Error'' ''Camera not ready'' s
      else if \<not> truthy (hasCameraPermission s) \<or> \<not> truthy (hasAudioPermission s) then
        alert ''Error'' ''Camera and microphone permissions required'' s
      else if \<not> truthy (hasMediaLibraryPermission s) then
        alert ''Error'' ''Media library permission required'' s
      else if \<not> cameraReady s then
        alert ''Error'' ''Camera is not ready. Please wait a moment and try again.'' s
      else startRecordingTimer (s\<lparr>isRecording := True, recordingStatus := Recording\<rparr>))"

definition cool_down :: "teleprompter \<Rightarrow> teleprompter" where
  \<comment> \<open>\<^verbatim>\<open>setTimeout(() => setRecordingStatus('idle'), 2000)\<close>\<close>
  "cool_down s = setTimeout StatusIdle 2000 s"

definition startRecording_catch :: "thrown \<Rightarrow> teleprompter \<Rightarrow> teleprompter" where
  \<comment> \<open>the outer \<^verbatim>\<open>catch\<close>\<close>
  "startRecording_catch e s =
     (let s1 = stopRecordingTimer s;
          errorMessage = (case e of ErrorObject m \<Rightarrow> m | NotAnError \<Rightarrow> ''Unknown error occurred'');
          userMessage = (if includes_str errorMessage ''stopped before any data''
                         then ''Recording failed - this may be a simulator limitation. Try on a real device.''
                         else ''Failed to record video'');
          s2 = alert ''Recording Error'' userMessage s1
      in cool_down (s2\<lparr>isRecording := False, recordingDuration := 0, recordingStatus := Error\<rparr>))"

definition startRecording_finish :: "teleprompter \<Rightarrow> teleprompter" where
  \<comment> \<open>the three statements after the \<^verbatim>\<open>if (video && video.uri)\<close>\<close>
  "startRecording_finish s = cool_down (s\<lparr>isRecording := False, recordingDuration := 0\<rparr>)"

definition startRecording_recorded :: "video option settled \<Rightarrow> teleprompter \<Rightarrow> teleprompter" where
  \<comment> \<open>from the point where the promise of \<^verbatim>\<open>recordAsync\<close> settles, up to the call of
      \<^verbatim>\<open>saveToLibraryAsync\<close> when there is a file, to the end of the function otherwise\<close>
  "startRecording_recorded r s =
     (case r of
        Rejected e \<Rightarrow> startRecording_catch e s
      | Resolved v \<Rightarrow>
          (let s1 = (stopRecordingTimer s)\<lparr>recordingStatus := Saving\<rparr>
           in if (case v of None \<Rightarrow> False | Some vid \<Rightarrow> uri vid \<noteq> []) then s1
              else startRecording_finish
                     ((alert ''Error'' ''No video data was recorded'' s1)
                        \<lparr>recordingStatus := Error\<rparr>)))"

definition startRecording_saved :: "unit settled \<Rightarrow> teleprompter \<Rightarrow> teleprompter" where
  \<comment> \<open>from the point where the promise of \<^verbatim>\<open>saveToLibraryAsync\<close> settles\<close>
  "startRecording_saved r s =
     (case r of
        Resolved _ \<Rightarrow>
          startRecording_finish
            ((alert ''Success'' ''Video saved to gallery!'' s)\<lparr>recordingStatus := Saved\<rparr>)
      | Rejected saveError \<Rightarrow>
          startRecording_finish
            ((alert ''Error'' ''Failed to save video to gallery'' s)\<lparr>recordingStatus := Error\<rparr>))"

definition stopRecording :: "unit settled \<Rightarrow> teleprompter \<Rightarrow> teleprompter" where
  \<comment> \<open>the argument: how \<^verbatim>\<open>cameraRef.current.stopRecording()\<close> ends\<close>
  "stopRecording r s =
     (if cameraRef s \<and> isRecording s then
        (case r of
           Resolved _ \<Rightarrow> s
         | Rejected e \<Rightarrow>
             cool_down ((stopRecordingTimer s)
               \<lparr>isRecording := False, recordingDuration := 0, recordingStatus := Error\<rparr>))
      else s)"

subsection \<open>Screen focus\<close>

definition focusEffect :: "teleprompter \<Rightarrow> teleprompter" where
  \<comment> \<open>the callback of \<^verbatim>\<open>useFocusEffect\<close>, run when the screen comes into focus; the
      result of the \<^verbatim>\<open>loadSelectedScript\<close> it starts arrives later\<close>
  "focusEffect s =
     (let s1 = s\<lparr>cameraReady := False, recordingStatus := Idle, isRecording := False,
                 recordingDuration := 0, cameraKey := cameraKey s + 1\<rparr>
      in case recordingTimerRef s1 of
           Some h \<Rightarrow> (clearInterval h s1)\<lparr>recordingTimerRef := None\<rparr>
         | None \<Rightarrow> s1)"

definition focusCleanup :: "teleprompter \<Rightarrow> teleprompter" where
  \<comment> \<open>the function the callback returns, run when the screen loses focus\<close>
  "focusCleanup s =
     (case recordingTimerRef s of
        Some h \<Rightarrow> (clearInterval h s)\<lparr>recordingTimerRef := None\<rparr>
      | None \<Rightarrow> s)"

subsection \<open>Auto-scroll\<close>

definition startAutoScroll :: "teleprompter \<Rightarrow> teleprompter" where
  "startAutoScroll s =
     (if selectedScript s = None \<or> isScrolling s then s
      else (setInterval (ScrollTick 0 (scrollSpeed s)) 50 (s\<lparr>isScrolling := True\<rparr>))
             \<lparr>scrollIntervalRef := Some (next_timer s)\<rparr>)"

definition stopAutoScroll :: "teleprompter \<Rightarrow> teleprompter" where
  "stopAutoScroll s =
     (let s1 = s\<lparr>isScrolling := False\<rparr>
      in case scrollIntervalRef s1 of
           Some h \<Rightarrow> (clearInterval h s1)\<lparr>scrollIntervalRef := None\<rparr>
         | None \<Rightarrow> s1)"

definition resetScroll :: "teleprompter \<Rightarrow> teleprompter" where
  "resetScroll s = scrollTo 0 (stopAutoScroll s)"

subsection \<open>Speed and font buttons\<close>

definition decreaseSpeed :: "teleprompter \<Rightarrow> teleprompter" where
  "decreaseSpeed s = s\<lparr>scrollSpeed := max 1 (scrollSpeed s - 1)\<rparr>"

definition increaseSpeed :: "teleprompter \<Rightarrow> teleprompter" where
  "increaseSpeed s = s\<lparr>scrollSpeed := min 10 (scrollSpeed s + 1)\<rparr>"

definition decreaseFont :: "teleprompter \<Rightarrow> teleprompter" where
  "decreaseFont s = s\<lparr>fontSize := max 16 (fontSize s - 2)\<rparr>"

definition increaseFont :: "teleprompter \<Rightarrow> teleprompter" where
  "increaseFont s = s\<lparr>fontSize := min 36 (fontSize s + 2)\<rparr>"

subsection \<open>Timer firings\<close>

text \<open>
  A timer fires no earlier than its due time. An interval is due again one delay after
  it fired, a timeout is removed. Then the callback runs: the auto-scroll closure adds its
  captured speed to its own \<^verbatim>\<open>scrollPosition\<close> and sends the scroll view there; the
  recording tick samples the clock; the cool-down callback sets the status to idle.
\<close>

definition run_callback :: "nat \<Rightarrow> timer \<Rightarrow> teleprompter \<Rightarrow> teleprompter" where
  "run_callback h t s =
     (case callback t of
        ScrollTick scrollPosition speed \<Rightarrow>
          scrollTo (scrollPosition + speed)
            (s\<lparr>timers := (timers s)(h \<mapsto> t\<lparr>callback := ScrollTick (scrollPosition + speed) speed\<rparr>)\<rparr>)
      | RecordingTick \<Rightarrow> s\<lparr>recordingDuration := int (now s) - int (recordingStartTime s)\<rparr>
      | StatusIdle \<Rightarrow> s\<lparr>recordingStatus := Idle\<rparr>)"

definition fire :: "nat \<Rightarrow> teleprompter \<Rightarrow> teleprompter" where
  "fire h s =
     (case timers s h of
        None \<Rightarrow> s
      | Some t \<Rightarrow>
          if now s < due t then s
          else if repeats t then
            run_callback h (t\<lparr>due := now s + delay t\<rparr>)
              (s\<lparr>timers := (timers s)(h \<mapsto> t\<lparr>due := now s + delay t\<rparr>)\<rparr>)
          else run_callback h t (s\<lparr>timers := (timers s)(h := None)\<rparr>))"

definition time_passes :: "nat \<Rightarrow> teleprompter \<Rightarrow> teleprompter" where
  "time_passes ms s = s\<lparr>now := now s + ms\<rparr>"

subsection \<open>Rendering and the event loop\<close>

text \<open>
  The component returns one of three placeholder views unless both permissions are
  granted and a script is selected; only the main view holds the scroll view and the
  camera view. After each event the framework renders again and sets the refs of the
  views it mounted: a scroll view mounted anew starts at offset zero.

  An event is the settling of a promise the screen awaits, a change of focus, the ready
  signal of the camera, a press of a button, the firing of a timer or the passing of
  time. A handler belongs to the latest render, so it reads the cells as they are; the
  continuations of \<^verbatim>\<open>startRecording\<close> after its awaits read none. The only values kept
  from an older render are those in the closure of the auto-scroll interval. The events
  are not restricted to the buttons the screen shows at the moment, so what holds after
  every sequence of events holds in every session. The scroll view is taken to go where
  it is sent; the screen stays mounted.
\<close>

definition renders_main :: "teleprompter \<Rightarrow> bool" where
  "renders_main s \<longleftrightarrow>
     \<not> (hasCameraPermission s = None \<or> hasAudioPermission s = None)
     \<and> \<not> (hasCameraPermission s = Some False \<or> hasAudioPermission s = Some False)
     \<and> selectedScript s \<noteq> None"

definition commit :: "teleprompter \<Rightarrow> teleprompter" where
  "commit s =
     (if renders_main s then
        s\<lparr>cameraRef := True,
          scrollViewRef := Some (case scrollViewRef s of None \<Rightarrow> 0 | Some y \<Rightarrow> y)\<rparr>
      else s\<lparr>cameraRef := False, scrollViewRef := None\<rparr>)"

datatype event =
    PermissionsSettled bool bool bool
  | SelectedScriptLoaded "script option"
  | FocusGained
  | FocusLost
  | CameraReady
  | PressRecord
  | RecordSettled "video option settled"
  | SaveSettled "unit settled"
  | PressStop "unit settled"
  | PressPlay
  | PressPause
  | PressHome
  | SpeedMinus
  | SpeedPlus
  | FontMinus
  | FontPlus
  | TimerFires nat
  | TimePasses nat

fun handle :: "event \<Rightarrow> teleprompter \<Rightarrow> teleprompter" where
  "handle (PermissionsSettled cam aud media) s = requestPermissions_done cam aud media s"
| "handle (SelectedScriptLoaded r) s = loadSelectedScript_done r s"
| "handle FocusGained s = focusEffect s"
| "handle FocusLost s = focusCleanup s"
| "handle CameraReady s = onCameraReady s"
| "handle PressRecord s = startRecording s"
| "handle (RecordSettled r) s = startRecording_recorded r s"
| "handle (SaveSettled r) s = startRecording_saved r s"
| "handle (PressStop r) s = stopRecording r s"
| "handle PressPlay s = startAutoScroll s"
| "handle PressPause s = stopAutoScroll s"
| "handle PressHome s = resetScroll s"
| "handle SpeedMinus s = decreaseSpeed s"
| "handle SpeedPlus s = increaseSpeed s"
| "handle FontMinus s = decreaseFont s"
| "handle FontPlus s = increaseFont s"
| "handle (TimerFires h) s = fire h s"
| "handle (TimePasses ms) s = time_passes ms s"

definition step :: "event \<Rightarrow> teleprompter \<Rightarrow> teleprompter" where
  "step e s = commit (handle e s)"

fun run :: "event list \<Rightarrow> teleprompter \<Rightarrow> teleprompter" where
  "run [] s = s"
| "run (e # es) s = run es (step e s)"

subsection \<open>What holds of the timers in every reachable state\<close>

text \<open>
  The speed is within its bounds. The screen scrolls exactly while the ref of the
  auto-scroll interval is set. Handles are never reused: every live timer and every
  handle stored in a ref is older than \<open>next_timer\<close>. An auto-scroll closure is live only
  under the handle the ref holds, with a period of 50 ms, a position that is not negative
  and a captured speed within the bounds. A cool-down timeout is a one-shot of 2000 ms
  that no ref points to.
\<close>

definition timers_ok :: "teleprompter \<Rightarrow> bool" where
  "timers_ok s \<longleftrightarrow>
     1 \<le> scrollSpeed s \<and> scrollSpeed s \<le> 10
     \<and> (isScrolling s \<longleftrightarrow> scrollIntervalRef s \<noteq> None)
     \<and> (\<forall>h. scrollIntervalRef s = Some h \<longrightarrow> h < next_timer s)
     \<and> (\<forall>h. recordingTimerRef s = Some h \<longrightarrow> h < next_timer s)
     \<and> (\<forall>h t. timers s h = Some t \<longrightarrow> h < next_timer s)
     \<and> (\<forall>h t p v. timers s h = Some t \<and> callback t = ScrollTick p v \<longrightarrow>
            scrollIntervalRef s = Some h \<and> delay t = 50 \<and> repeats t
            \<and> 0 \<le> p \<and> 1 \<le> v \<and> v \<le> 10)
     \<and> (\<forall>h t. timers s h = Some t \<and> callback t = StatusIdle \<longrightarrow>
            delay t = 2000 \<and> \<not> repeats t
            \<and> scrollIntervalRef s \<noteq> Some h \<and> recordingTimerRef s \<noteq> Some h)"

definition in_bounds :: "teleprompter \<Rightarrow> bool" where
  "in_bounds s \<longleftrightarrow>
     1 \<le> scrollSpeed s \<and> scrollSpeed s \<le> 10 \<and> 16 \<le> fontSize s \<and> fontSize s \<le> 36"

section \<open>Example sessions\<close>

text \<open>
  Two scripts, a reading of the clock, the editor open on the first script with a new
  content of three words, and the editor open on a new script.
\<close>

definition ex_script :: script where
  "ex_script =
     \<lparr>id' = utf16 ''1'', title = utf16 ''Intro'', content = utf16 ''Hello world'',
      createdAt = utf16 ''2024-01-01T00:00:00.000Z'', wordCount = 2\<rparr>"

definition ex_other :: script where
  "ex_other =
     \<lparr>id' = utf16 ''2'', title = utf16 ''Outro'', content = utf16 ''Bye'',
      createdAt = utf16 ''2024-01-02T00:00:00.000Z'', wordCount = 1\<rparr>"

definition ex_clock :: clock_reading where
  "ex_clock = \<lparr>now_string = utf16 ''1704240000000'', now_iso = utf16 ''2024-01-03T00:00:00.000Z''\<rparr>"

definition ex_editing :: scripts_screen where
  "ex_editing =
     \<lparr>scripts = [ex_script, ex_other], modalVisible = True, editingScript = Some ex_script,
      title_state = utf16 ''Intro'', content_state = utf16 '' Hello  big world '',
      stored_scripts = Some [ex_script, ex_other], scripts_alerts = []\<rparr>"

definition ex_creating :: scripts_screen where
  "ex_creating =
     \<lparr>scripts = [ex_script], modalVisible = True, editingScript = None,
      title_state = utf16 ''Third'', content_state = utf16 ''one two three four'',
      stored_scripts = Some [ex_script], scripts_alerts = []\<rparr>"

text \<open>
  A session on the teleprompter screen: the permissions are granted, a script is loaded,
  the screen has the focus and the camera has signalled that it is ready.
\<close>

definition ready :: teleprompter where
  "ready =
     run [PermissionsSettled True True True, SelectedScriptLoaded (Some ex_script),
          FocusGained, CameraReady] initial"

text \<open>
  The same session with one of the two permissions of the camera view taken away, a
  file the camera may hand back, and the session two events into a recording, with
  auto-scroll running: timer 1 is the auto-scroll interval, timer 2 the recording timer.
\<close>

definition camera_denied :: teleprompter where
  "camera_denied = ready\<lparr>hasCameraPermission := Some False\<rparr>"

definition microphone_denied :: teleprompter where
  "microphone_denied = ready\<lparr>hasAudioPermission := Some False\<rparr>"

definition ex_video :: video where
  "ex_video = \<lparr>uri = utf16 ''file:///video.mp4''\<rparr>"

definition recording_session :: teleprompter where
  "recording_session = run [PressPlay, PressRecord, TimePasses 100, TimerFires 2] ready"

text \<open>
  A recording of the ready session after one tick of the recording timer, at the moment
  the camera has handed back the file and the save is under way.
\<close>

definition saving_session :: teleprompter where
  "saving_session =
     run [PressRecord, TimePasses 100, TimerFires 1, RecordSettled (Resolved (Some ex_video))]
       ready"

section \<open>The invariant of the timers\<close>

lemmas handler_defs =
  requestPermissions_done_def loadSelectedScript_done_def onCameraReady_def
  startRecording_def startRecordingTimer_def stopRecordingTimer_def startRecording_catch_def
  startRecording_finish_def startRecording_recorded_def startRecording_saved_def
  stopRecording_def cool_down_def focusEffect_def focusCleanup_def startAutoScroll_def
  stopAutoScroll_def resetScroll_def decreaseSpeed_def increaseSpeed_def decreaseFont_def
  increaseFont_def fire_def run_callback_def time_passes_def setInterval_def setTimeout_def
  clearInterval_def alert_def scrollTo_def

lemma timers_ok_initial: "timers_ok initial"
  by (simp add: timers_ok_def initial_def)

lemma timers_ok_commit: "timers_ok s \<Longrightarrow> timers_ok (commit s)"
  unfolding timers_ok_def commit_def by auto

lemma timers_ok_requestPermissions_done:
  "timers_ok s \<Longrightarrow> timers_ok (requestPermissions_done a b c s)"
  unfolding timers_ok_def requestPermissions_done_def by auto

lemma timers_ok_loadSelectedScript_done:
  "timers_ok s \<Longrightarrow> timers_ok (loadSelectedScript_done r s)"
  unfolding timers_ok_def loadSelectedScript_done_def by (cases r) auto

lemma timers_ok_onCameraReady: "timers_ok s \<Longrightarrow> timers_ok (onCameraReady s)"
  unfolding timers_ok_def onCameraReady_def by auto

lemma timers_ok_alert: "timers_ok s \<Longrightarrow> timers_ok (alert a b s)"
  unfolding timers_ok_def alert_def by auto

lemma timers_ok_stopRecordingTimer: "timers_ok s \<Longrightarrow> timers_ok (stopRecordingTimer s)"
  unfolding timers_ok_def stopRecordingTimer_def clearInterval_def
  by (cases "recordingTimerRef s") (auto split: if_splits)

lemma timers_ok_startRecordingTimer: "timers_ok s \<Longrightarrow> timers_ok (startRecordingTimer s)"
  unfolding timers_ok_def startRecordingTimer_def setInterval_def Let_def
  by (auto split: if_splits)


lemma timers_ok_status:
  "timers_ok s \<Longrightarrow>
   timers_ok (s\<lparr>isRecording := a, recordingDuration := b, recordingStatus := c\<rparr>)"
  unfolding timers_ok_def by auto

lemma timers_ok_status1: "timers_ok s \<Longrightarrow> timers_ok (s\<lparr>recordingStatus := c\<rparr>)"
  unfolding timers_ok_def by auto

lemma timers_ok_status2:
  "timers_ok s \<Longrightarrow> timers_ok (s\<lparr>isRecording := a, recordingDuration := b\<rparr>)"
  unfolding timers_ok_def by auto

lemma timers_ok_status3:
  "timers_ok s \<Longrightarrow> timers_ok (s\<lparr>isRecording := a, recordingStatus := c\<rparr>)"
  unfolding timers_ok_def by auto

lemma timers_ok_cool_down: "timers_ok s \<Longrightarrow> timers_ok (cool_down s)"
  unfolding timers_ok_def cool_down_def setTimeout_def
  by (auto split: if_splits)

lemma timers_ok_startRecording: "timers_ok s \<Longrightarrow> timers_ok (startRecording s)"
  unfolding startRecording_def
  by (simp add: timers_ok_alert timers_ok_startRecordingTimer timers_ok_status3)

lemma timers_ok_startRecording_catch: "timers_ok s \<Longrightarrow> timers_ok (startRecording_catch e s)"
  unfolding startRecording_catch_def Let_def
  by (intro timers_ok_cool_down timers_ok_status timers_ok_alert timers_ok_stopRecordingTimer)

lemma timers_ok_startRecording_finish: "timers_ok s \<Longrightarrow> timers_ok (startRecording_finish s)"
  unfolding startRecording_finish_def
  by (intro timers_ok_cool_down timers_ok_status2)

lemma timers_ok_startRecording_recorded:
  "timers_ok s \<Longrightarrow> timers_ok (startRecording_recorded r s)"
  unfolding startRecording_recorded_def Let_def
  by (cases r)
     (simp_all add: timers_ok_startRecording_catch timers_ok_startRecording_finish
        timers_ok_status1 timers_ok_alert timers_ok_stopRecordingTimer)

lemma timers_ok_startRecording_saved:
  "timers_ok s \<Longrightarrow> timers_ok (startRecording_saved r s)"
  unfolding startRecording_saved_def
  by (cases r)
     (simp_all add: timers_ok_startRecording_finish timers_ok_status1 timers_ok_alert)

lemma timers_ok_stopRecording: "timers_ok s \<Longrightarrow> timers_ok (stopRecording r s)"
  unfolding stopRecording_def
  by (cases r)
     (simp_all add: timers_ok_cool_down timers_ok_status timers_ok_stopRecordingTimer)

lemma timers_ok_focusCleanup: "timers_ok s \<Longrightarrow> timers_ok (focusCleanup s)"
  unfolding timers_ok_def focusCleanup_def clearInterval_def
  by (cases "recordingTimerRef s") (auto split: if_splits)

lemma timers_ok_focusEffect: "timers_ok s \<Longrightarrow> timers_ok (focusEffect s)"
  unfolding timers_ok_def focusEffect_def clearInterval_def Let_def
  by (cases "recordingTimerRef s") (auto split: if_splits)

lemma timers_ok_startAutoScroll: "timers_ok s \<Longrightarrow> timers_ok (startAutoScroll s)"
  unfolding timers_ok_def startAutoScroll_def setInterval_def
  by (auto split: if_splits)

lemma timers_ok_stopAutoScroll: "timers_ok s \<Longrightarrow> timers_ok (stopAutoScroll s)"
  unfolding timers_ok_def stopAutoScroll_def clearInterval_def Let_def
  by (cases "scrollIntervalRef s") (auto split: if_splits)

lemma timers_ok_scrollTo: "timers_ok s \<Longrightarrow> timers_ok (scrollTo y s)"
  unfolding timers_ok_def scrollTo_def by auto

lemma timers_ok_resetScroll: "timers_ok s \<Longrightarrow> timers_ok (resetScroll s)"
  unfolding resetScroll_def by (intro timers_ok_scrollTo timers_ok_stopAutoScroll)

lemma timers_ok_speed:
  "timers_ok s \<Longrightarrow> timers_ok (decreaseSpeed s)"
  "timers_ok s \<Longrightarrow> timers_ok (increaseSpeed s)"
  unfolding timers_ok_def decreaseSpeed_def increaseSpeed_def by auto

lemma timers_ok_font:
  "timers_ok s \<Longrightarrow> timers_ok (decreaseFont s)"
  "timers_ok s \<Longrightarrow> timers_ok (increaseFont s)"
  unfolding timers_ok_def decreaseFont_def increaseFont_def by auto

lemma timers_ok_time_passes: "timers_ok s \<Longrightarrow> timers_ok (time_passes ms s)"
  unfolding timers_ok_def time_passes_def by auto

lemma fire_frame:
  "scrollIntervalRef (fire h s) = scrollIntervalRef s"
  "recordingTimerRef (fire h s) = recordingTimerRef s"
  "next_timer (fire h s) = next_timer s"
  "isScrolling (fire h s) = isScrolling s"
  "scrollSpeed (fire h s) = scrollSpeed s"
  by (simp_all add: fire_def run_callback_def scrollTo_def
        split: option.splits callback.splits)

lemma fire_timers_other: "h' \<noteq> h \<Longrightarrow> timers (fire h s) h' = timers s h'"
  by (simp add: fire_def run_callback_def scrollTo_def split: option.splits callback.splits)

lemma fire_timers_same:
  assumes "timers (fire h s) h = Some t'"
  shows "\<exists>t. timers s h = Some t \<and> repeats t' = repeats t \<and> delay t' = delay t
           \<and> (callback t' = callback t
               \<or> (\<exists>p v. callback t = ScrollTick p v \<and> callback t' = ScrollTick (p + v) v))"
proof (cases "timers s h")
  case None
  then show ?thesis using assms by (simp add: fire_def)
next
  case (Some t)
  then show ?thesis
    using assms
    by (cases "callback t")
       (auto simp add: fire_def run_callback_def scrollTo_def split: if_splits)
qed

lemma timers_ok_fire:
  assumes ok: "timers_ok s"
  shows "timers_ok (fire h s)"
proof -
  have entry: "h' < next_timer s
      \<and> (\<forall>p v. callback t' = ScrollTick p v \<longrightarrow>
            scrollIntervalRef s = Some h' \<and> delay t' = 50 \<and> repeats t'
            \<and> 0 \<le> p \<and> 1 \<le> v \<and> v \<le> 10)
      \<and> (callback t' = StatusIdle \<longrightarrow>
            delay t' = 2000 \<and> \<not> repeats t'
            \<and> scrollIntervalRef s \<noteq> Some h' \<and> recordingTimerRef s \<noteq> Some h')"
    if t': "timers (fire h s) h' = Some t'" for h' t'
  proof (cases "h' = h")
    case False
    with t' have "timers s h' = Some t'" by (simp add: fire_timers_other)
    with ok show ?thesis unfolding timers_ok_def by blast
  next
    case True
    with t' obtain t where t: "timers s h = Some t" "repeats t' = repeats t"
      "delay t' = delay t"
      "callback t' = callback t
        \<or> (\<exists>p v. callback t = ScrollTick p v \<and> callback t' = ScrollTick (p + v) v)"
      using fire_timers_same by blast
    from ok t(1) have old: "h < next_timer s"
      "\<And>p v. callback t = ScrollTick p v \<Longrightarrow>
            scrollIntervalRef s = Some h \<and> delay t = 50 \<and> repeats t
            \<and> 0 \<le> p \<and> 1 \<le> v \<and> v \<le> 10"
      "callback t = StatusIdle \<Longrightarrow>
            delay t = 2000 \<and> \<not> repeats t
            \<and> scrollIntervalRef s \<noteq> Some h \<and> recordingTimerRef s \<noteq> Some h"
      unfolding timers_ok_def by blast+
    from t(4) show ?thesis
    proof
      assume "callback t' = callback t"
      with old t(2,3) True show ?thesis by simp
    next
      assume "\<exists>p v. callback t = ScrollTick p v \<and> callback t' = ScrollTick (p + v) v"
      then obtain p v where pv: "callback t = ScrollTick p v"
        "callback t' = ScrollTick (p + v) v" by blast
      from old(2) [OF pv(1)] old(1) t(2,3) pv(2) True show ?thesis by simp
    qed
  qed
  show ?thesis
    unfolding timers_ok_def fire_frame
    using ok entry unfolding timers_ok_def by blast
qed

lemma timers_ok_handle: "timers_ok s \<Longrightarrow> timers_ok (handle e s)"
  by (cases e)
     (simp_all add: timers_ok_requestPermissions_done timers_ok_loadSelectedScript_done
        timers_ok_focusEffect timers_ok_focusCleanup timers_ok_onCameraReady
        timers_ok_startRecording timers_ok_startRecording_recorded
        timers_ok_startRecording_saved timers_ok_stopRecording timers_ok_startAutoScroll
        timers_ok_stopAutoScroll timers_ok_resetScroll timers_ok_speed timers_ok_font
        timers_ok_fire timers_ok_time_passes)

lemma timers_ok_step: "timers_ok s \<Longrightarrow> timers_ok (step e s)"
  unfolding step_def by (intro timers_ok_commit timers_ok_handle)

lemma timers_ok_run: "timers_ok s \<Longrightarrow> timers_ok (run es s)"
  by (induction es arbitrary: s) (simp_all add: timers_ok_step)

lemma timers_ok_reachable: "timers_ok (run es initial)"
  by (rule timers_ok_run [OF timers_ok_initial])

section \<open>Saving a script\<close>

lemma saveScript_scripts_edit:
  assumes "editingScript s = Some e"
  shows "scripts (saveScript clk write_ok s) =
     (if trim (title_state s) = [] \<or> trim (content_state s) = [] \<or> \<not> write_ok then scripts s
      else map (\<lambda>sc. if id' sc = id' e
                then sc\<lparr>title := title_state s, content := content_state s,
                        wordCount := int (length (split_ws (trim (content_state s))))\<rparr>
                else sc) (scripts s))"
  using assms by (simp add: saveScript_def saveScripts_def Let_def)

lemma saveScript_scripts_create:
  assumes "editingScript s = None"
  shows "scripts (saveScript clk write_ok s) =
     (if trim (title_state s) = [] \<or> trim (content_state s) = [] \<or> \<not> write_ok then scripts s
      else scripts s @
             [\<lparr>id' = now_string clk, title = title_state s, content = content_state s,
               createdAt = now_iso clk,
               wordCount = int (length (split_ws (trim (content_state s))))\<rparr>])"
  using assms by (simp add: saveScript_def saveScripts_def Let_def)

lemma saveScript_stored:
  "stored_scripts (saveScript clk write_ok s) =
     (if trim (title_state s) = [] \<or> trim (content_state s) = [] \<or> \<not> write_ok
      then stored_scripts s else Some (scripts (saveScript clk write_ok s)))"
  by (simp add: saveScript_def saveScripts_def Let_def split: option.splits)

lemma ex_strings:
  "trim (utf16 ''Intro'') = utf16 ''Intro''"
  "trim (utf16 '' Hello  big world '') = utf16 ''Hello  big world''"
  "split_ws (utf16 ''Hello  big world'') = [utf16 ''Hello'', utf16 ''big'', utf16 ''world'']"
  by (simp_all add: utf16_def trim_def is_whitespace_def split_ws.simps)

lemma split_ws_pieces:
  "s \<noteq> [] \<Longrightarrow> \<not> is_whitespace (hd s) \<Longrightarrow> \<not> is_whitespace (last s) \<Longrightarrow>
   p \<in> set (split_ws s) \<Longrightarrow> p \<noteq> [] \<and> (\<forall>c \<in> set p. \<not> is_whitespace c)"
proof (induction s arbitrary: p rule: split_ws.induct)
  case (1 s)
  show ?case
  proof (cases "dropWhile (\<lambda>c. \<not> is_whitespace c) s")
    case Nil
    then have "\<forall>c \<in> set s. \<not> is_whitespace c"
      by simp
    moreover have "split_ws s = [s]"
      by (subst split_ws.simps) (simp only: Nil list.case)
    with "1.prems"(4) have "p = s" by simp
    ultimately show ?thesis using "1.prems"(1) by simp
  next
    case (Cons c rest)
    let ?w = "takeWhile (\<lambda>c. \<not> is_whitespace c) s"
    let ?s' = "dropWhile is_whitespace rest"
    have s: "s = ?w @ c # rest"
      using Cons takeWhile_dropWhile_id [of "\<lambda>c. \<not> is_whitespace c" s] by simp
    have c: "is_whitespace c"
      using Cons hd_dropWhile [of "\<lambda>c. \<not> is_whitespace c" s] by auto
    have w: "?w \<noteq> []"
      using "1.prems"(1,2) by (cases s) simp_all
    have wn: "\<forall>x \<in> set ?w. \<not> is_whitespace x"
      by (auto dest: set_takeWhileD)
    have ne: "?s' \<noteq> []"
    proof
      assume "?s' = []"
      then have "\<forall>x \<in> set rest. is_whitespace x"
        by simp
      with c have "is_whitespace (last (c # rest))" by simp
      moreover have "last s = last (c # rest)"
        by (subst s) simp
      ultimately show False using "1.prems"(3) by simp
    qed
    have hd: "\<not> is_whitespace (hd ?s')"
      using ne hd_dropWhile [of is_whitespace rest] by simp
    have "last ?s' = last rest"
      using ne takeWhile_dropWhile_id [of is_whitespace rest]
      by (metis last_appendR)
    moreover have "last rest = last s"
      using ne by (subst s) auto
    ultimately have la: "\<not> is_whitespace (last ?s')"
      using "1.prems"(3) by simp
    have "split_ws s = ?w # split_ws ?s'"
      by (subst split_ws.simps) (simp only: Cons list.case)
    with "1.prems"(4) have "p = ?w \<or> p \<in> set (split_ws ?s')" by simp
    then show ?thesis
    proof
      assume "p = ?w"
      with w wn show ?thesis by simp
    next
      assume "p \<in> set (split_ws ?s')"
      from "1.IH" [OF Cons ne hd la this] show ?thesis .
    qed
  qed
qed

lemma trim_ends:
  assumes "trim s \<noteq> []"
  shows "\<not> is_whitespace (hd (trim s))" and "\<not> is_whitespace (last (trim s))"
proof -
  let ?d = "dropWhile is_whitespace s"
  let ?r = "dropWhile is_whitespace (rev ?d)"
  from assms have r: "?r \<noteq> []" by (simp add: trim_def)
  have d: "?d \<noteq> []"
  proof
    assume "?d = []"
    then have "?r = []" by (simp only: rev.simps(1) dropWhile.simps(1))
    with r show False by simp
  qed
  have "last (trim s) = hd ?r"
    using r by (simp add: trim_def last_rev)
  with r hd_dropWhile [of is_whitespace "rev ?d"]
  show "\<not> is_whitespace (last (trim s))" by simp
  have "hd (trim s) = last ?r"
    using r by (simp add: trim_def hd_rev)
  also have "last ?r = last (rev ?d)"
    using r takeWhile_dropWhile_id [of is_whitespace "rev ?d"] by (metis last_appendR)
  also have "\<dots> = hd ?d"
    using d by (simp add: last_rev)
  finally show "\<not> is_whitespace (hd (trim s))"
    using d hd_dropWhile [of is_whitespace s] by simp
qed

lemma split_ws_trim_words:
  assumes "trim s \<noteq> []" and "p \<in> set (split_ws (trim s))"
  shows "p \<noteq> [] \<and> (\<forall>c \<in> set p. \<not> is_whitespace c)"
  using split_ws_pieces [OF assms(1) trim_ends [OF assms(1)] assms(2)] .

text \<open>
  C8. Whenever a script is saved, created or edited, the word count stored with it is the
  number of pieces that splitting the trimmed content of the editor on runs of whitespace
  gives, computed from the content being saved: the script appended on creation, and every
  script of the list with the id of the edited one, carry the content of the editor and
  that count, whatever count was stored before. A save needs a content that is not blank,
  so every piece counted is a word: a non-empty run of code units that are not whitespace.
\<close>

theorem saveScript_wordCount:
  assumes "trim (title_state s) \<noteq> []" and "trim (content_state s) \<noteq> []"
  shows "stored_scripts (saveScript clk True s) = Some (scripts (saveScript clk True s))
    \<and> (editingScript s = None \<longrightarrow>
         scripts (saveScript clk True s) = scripts s @ [last (scripts (saveScript clk True s))]
         \<and> content (last (scripts (saveScript clk True s))) = content_state s
         \<and> wordCount (last (scripts (saveScript clk True s))) =
             int (length (split_ws (trim (content_state s)))))
    \<and> (\<forall>e. editingScript s = Some e \<longrightarrow>
         length (scripts (saveScript clk True s)) = length (scripts s)
         \<and> (\<forall>i < length (scripts s). id' (scripts s ! i) = id' e \<longrightarrow>
               content (scripts (saveScript clk True s) ! i) = content_state s
               \<and> wordCount (scripts (saveScript clk True s) ! i) =
                   int (length (split_ws (trim (content_state s))))))
    \<and> (\<forall>p \<in> set (split_ws (trim (content_state s))).
          p \<noteq> [] \<and> (\<forall>c \<in> set p. \<not> is_whitespace c))"
proof -
  have "\<forall>p \<in> set (split_ws (trim (content_state s))).
          p \<noteq> [] \<and> (\<forall>c \<in> set p. \<not> is_whitespace c)"
    using split_ws_trim_words [OF assms(2)] by blast
  with assms show ?thesis
    by (simp add: saveScript_stored saveScript_scripts_create saveScript_scripts_edit)
qed

theorem saveScript_wordCount_witness:
  "trim (title_state ex_editing) \<noteq> [] \<and> trim (content_state ex_editing) \<noteq> []
   \<and> editingScript ex_editing = Some ex_script
   \<and> id' (scripts ex_editing ! 0) = id' ex_script
   \<and> wordCount (scripts ex_editing ! 0) = 2
   \<and> wordCount (scripts (saveScript ex_clock True ex_editing) ! 0) = 3
   \<and> trim (title_state ex_creating) \<noteq> [] \<and> trim (content_state ex_creating) \<noteq> []
   \<and> editingScript ex_creating = None
   \<and> wordCount (last (scripts (saveScript ex_clock True ex_creating))) = 4"
proof -
  have t: "trim (title_state ex_editing) \<noteq> []" and c: "trim (content_state ex_editing) \<noteq> []"
    by (simp_all add: ex_editing_def ex_strings, simp_all add: utf16_def)
  have e: "editingScript ex_editing = Some ex_script"
    and i: "id' (scripts ex_editing ! 0) = id' ex_script"
    and l: "0 < length (scripts ex_editing)"
    and w: "wordCount (scripts ex_editing ! 0) = 2"
    by (simp_all add: ex_editing_def ex_script_def)
  have n: "int (length (split_ws (trim (content_state ex_editing)))) = 3"
    by (simp add: ex_editing_def ex_strings)
  from saveScript_wordCount [OF t c, of ex_clock] e i l
  have a: "wordCount (scripts (saveScript ex_clock True ex_editing) ! 0) =
          int (length (split_ws (trim (content_state ex_editing))))"
    by blast
  have t': "trim (title_state ex_creating) \<noteq> []"
    and c': "trim (content_state ex_creating) \<noteq> []"
    and e': "editingScript ex_creating = None"
    and n': "int (length (split_ws (trim (content_state ex_creating)))) = 4"
    by (simp_all add: ex_creating_def utf16_def trim_def is_whitespace_def split_ws.simps)
  from saveScript_wordCount [OF t' c', of ex_clock] e'
  have "wordCount (last (scripts (saveScript ex_clock True ex_creating))) =
          int (length (split_ws (trim (content_state ex_creating))))"
    by blast
  with n' a n t c e i w t' c' e' show ?thesis by simp
qed



section \<open>Speed and font size\<close>

lemma handle_scrollSpeed:
  "scrollSpeed (handle e s) =
     (case e of SpeedMinus \<Rightarrow> max 1 (scrollSpeed s - 1)
      | SpeedPlus \<Rightarrow> min 10 (scrollSpeed s + 1)
      | _ \<Rightarrow> scrollSpeed s)"
  by (cases e)
     (simp_all add: handler_defs Let_def
        split: option.splits settled.splits callback.splits)

lemma handle_fontSize:
  "fontSize (handle e s) =
     (case e of FontMinus \<Rightarrow> max 16 (fontSize s - 2)
      | FontPlus \<Rightarrow> min 36 (fontSize s + 2)
      | _ \<Rightarrow> fontSize s)"
  by (cases e)
     (simp_all add: handler_defs Let_def
        split: option.splits settled.splits callback.splits)

lemma commit_speed_font:
  "scrollSpeed (commit s) = scrollSpeed s" "fontSize (commit s) = fontSize s"
  by (simp_all add: commit_def)

lemma in_bounds_step: "in_bounds s \<Longrightarrow> in_bounds (step e s)"
  unfolding in_bounds_def step_def commit_speed_font handle_scrollSpeed handle_fontSize
  by (cases e) simp_all

lemma in_bounds_run: "in_bounds s \<Longrightarrow> in_bounds (run es s)"
  by (induction es arbitrary: s) (simp_all add: in_bounds_step)

lemma in_bounds_initial: "in_bounds initial"
  by (simp add: in_bounds_def initial_def)

text \<open>
  C7. After every sequence of events of a session, the speed and font buttons included,
  the scroll speed is between 1 and 10 and the font size between 16 and 36; and at a
  bound the button that would leave it changes nothing at all: decreasing the speed at 1,
  increasing it at 10, decreasing the font at 16 and increasing it at 36 return the state
  they were given.
\<close>

theorem speed_font_bounds:
  "1 \<le> scrollSpeed (run es initial) \<and> scrollSpeed (run es initial) \<le> 10
   \<and> 16 \<le> fontSize (run es initial) \<and> fontSize (run es initial) \<le> 36
   \<and> (scrollSpeed s = 1 \<longrightarrow> decreaseSpeed s = s)
   \<and> (scrollSpeed s = 10 \<longrightarrow> increaseSpeed s = s)
   \<and> (fontSize s = 16 \<longrightarrow> decreaseFont s = s)
   \<and> (fontSize s = 36 \<longrightarrow> increaseFont s = s)"
proof -
  have "in_bounds (run es initial)"
    by (rule in_bounds_run [OF in_bounds_initial])
  then show ?thesis
    by (simp add: in_bounds_def decreaseSpeed_def increaseSpeed_def decreaseFont_def
          increaseFont_def)
qed

theorem speed_font_bounds_witness:
  "scrollSpeed (run [SpeedMinus] initial) = 1
   \<and> decreaseSpeed (run [SpeedMinus] initial) = run [SpeedMinus] initial
   \<and> fontSize (run [FontPlus, FontPlus, FontPlus, FontPlus, FontPlus, FontPlus] initial) = 36
   \<and> increaseFont (run [FontPlus, FontPlus, FontPlus, FontPlus, FontPlus, FontPlus] initial) =
       run [FontPlus, FontPlus, FontPlus, FontPlus, FontPlus, FontPlus] initial
   \<and> scrollSpeed (run [SpeedMinus, SpeedMinus, SpeedMinus] initial) \<le> 10
   \<and> 1 \<le> scrollSpeed (run [SpeedMinus, SpeedMinus, SpeedMinus] initial)"
proof -
  have a: "scrollSpeed (run [SpeedMinus] initial) = 1"
    by (simp add: step_def commit_speed_font decreaseSpeed_def initial_def)
  have b: "fontSize (run [FontPlus, FontPlus, FontPlus, FontPlus, FontPlus, FontPlus] initial) = 36"
    by (simp add: step_def commit_speed_font increaseFont_def initial_def)
  from speed_font_bounds [of "[SpeedMinus, SpeedMinus, SpeedMinus]" "run [SpeedMinus] initial"]
    speed_font_bounds [of "[]" "run [FontPlus, FontPlus, FontPlus, FontPlus, FontPlus, FontPlus] initial"]
    a b
  show ?thesis by blast
qed

section \<open>Evaluating the example sessions\<close>

lemmas session_defs = step_def commit_def renders_main_def truthy_def handler_defs Let_def

lemma ready_eq:
  "ready =
     \<lparr>selectedScript = Some ex_script, isRecording = False, hasCameraPermission = Some True,
      hasAudioPermission = Some True, hasMediaLibraryPermission = Some True, scrollSpeed = 2,
      fontSize = 24, isScrolling = False, cameraReady = True, recordingStatus = Idle,
      recordingDuration = 0, cameraKey = 1, cameraRef = True, scrollViewRef = Some 0,
      scrollIntervalRef = None, recordingTimerRef = None, recordingStartTime = 0,
      timers = Map.empty, next_timer = 1, now = 0, alerts = []\<rparr>"
  by (simp add: ready_def initial_def session_defs)

lemma recording_session_eq:
  "recording_session =
     \<lparr>selectedScript = Some ex_script, isRecording = True, hasCameraPermission = Some True,
      hasAudioPermission = Some True, hasMediaLibraryPermission = Some True, scrollSpeed = 2,
      fontSize = 24, isScrolling = True, cameraReady = True, recordingStatus = Recording,
      recordingDuration = 100, cameraKey = 1, cameraRef = True, scrollViewRef = Some 0,
      scrollIntervalRef = Some 1, recordingTimerRef = Some 2, recordingStartTime = 0,
      timers = [1 \<mapsto> \<lparr>callback = ScrollTick 0 2, delay = 50, repeats = True, due = 50\<rparr>,
                2 \<mapsto> \<lparr>callback = RecordingTick, delay = 100, repeats = True, due = 200\<rparr>],
      next_timer = 3, now = 100, alerts = []\<rparr>"
  by (simp add: recording_session_def ready_eq session_defs numeral_2_eq_2 numeral_3_eq_3)

lemma saving_session_eq:
  "saving_session =
     \<lparr>selectedScript = Some ex_script, isRecording = True, hasCameraPermission = Some True,
      hasAudioPermission = Some True, hasMediaLibraryPermission = Some True, scrollSpeed = 2,
      fontSize = 24, isScrolling = False, cameraReady = True, recordingStatus = Saving,
      recordingDuration = 100, cameraKey = 1, cameraRef = True, scrollViewRef = Some 0,
      scrollIntervalRef = None, recordingTimerRef = None, recordingStartTime = 0,
      timers = Map.empty, next_timer = 2, now = 100, alerts = []\<rparr>"
  by (simp add: saving_session_def ready_eq ex_video_def utf16_def session_defs)

section \<open>Auto-scroll\<close>

lemma fire_scroll_tick:
  assumes "timers s h = Some t" and "callback t = ScrollTick p v" and "due t \<le> now s"
  shows "scrollViewRef (fire h s) = map_option (\<lambda>_. p + v) (scrollViewRef s)"
    and "map_option callback (timers (fire h s) h) = Some (ScrollTick (p + v) v)"
  using assms by (simp_all add: fire_def run_callback_def scrollTo_def)

lemma fire_moves_view:
  assumes "scrollViewRef (fire h s) \<noteq> scrollViewRef s"
  shows "\<exists>t p v. timers s h = Some t \<and> callback t = ScrollTick p v"
proof (cases "timers s h")
  case None
  with assms show ?thesis by (simp add: fire_def)
next
  case (Some t)
  with assms show ?thesis
    by (cases "callback t")
       (auto simp add: fire_def run_callback_def scrollTo_def split: if_splits)
qed

lemma fire_moves_view_live:
  assumes "timers_ok s" and "scrollViewRef (fire h s) \<noteq> scrollViewRef s"
  shows "isScrolling s \<and> scrollIntervalRef s = Some h"
proof -
  from fire_moves_view [OF assms(2)] obtain t p v
    where "timers s h = Some t" "callback t = ScrollTick p v" by blast
  with assms(1) have "scrollIntervalRef s = Some h"
    unfolding timers_ok_def by blast
  moreover from this assms(1) have "isScrolling s"
    unfolding timers_ok_def by simp
  ultimately show ?thesis by simp
qed






lemma resetScroll_fields:
  "isScrolling (resetScroll s) = False" "scrollIntervalRef (resetScroll s) = None"
  "scrollViewRef (resetScroll s) = map_option (\<lambda>_. 0) (scrollViewRef s)"
  "scrollIntervalRef s = Some h \<Longrightarrow> timers (resetScroll s) h = None"
  "renders_main (resetScroll s) = renders_main s"
  by (simp_all add: resetScroll_def scrollTo_def stopAutoScroll_def clearInterval_def
        renders_main_def Let_def split: option.splits)

lemma speed_buttons_timers:
  "timers (increaseSpeed s) = timers s" "timers (decreaseSpeed s) = timers s"
  by (simp_all add: increaseSpeed_def decreaseSpeed_def)




text \<open>
  C6. \<open>resetScroll\<close> is \<open>stopAutoScroll\<close> followed by a scroll to zero. From every
  state it leaves \<open>isScrolling\<close> false, the interval cleared and its ref empty, and the
  scroll view, when there is one, at offset zero; after the press of the button and the
  render that follows, the scroll view is at zero whenever the main view is shown; and in
  a session no timer firing moves it from there.
\<close>

theorem resetScroll_zero:
  "resetScroll s = scrollTo 0 (stopAutoScroll s)
   \<and> isScrolling (resetScroll s) = False
   \<and> scrollIntervalRef (resetScroll s) = None
   \<and> scrollViewRef (resetScroll s) = map_option (\<lambda>_. 0) (scrollViewRef s)
   \<and> (\<forall>h. scrollIntervalRef s = Some h \<longrightarrow> timers (resetScroll s) h = None)
   \<and> isScrolling (step PressHome s) = False
   \<and> scrollViewRef (step PressHome s) = (if renders_main s then Some 0 else None)
   \<and> (\<forall>h. scrollViewRef (fire h (resetScroll (run es initial))) =
            scrollViewRef (resetScroll (run es initial)))"
proof -
  have b: "isScrolling (step PressHome s) = False"
    by (simp add: step_def commit_def resetScroll_fields)
  have c: "scrollViewRef (step PressHome s) = (if renders_main s then Some 0 else None)"
    by (cases "scrollViewRef s") (simp_all add: step_def commit_def resetScroll_fields)
  have d: "scrollViewRef (fire h (resetScroll (run es initial))) =
            scrollViewRef (resetScroll (run es initial))" for h
  proof -
    have "timers_ok (resetScroll (run es initial))"
      by (intro timers_ok_resetScroll timers_ok_reachable)
    moreover have "\<not> isScrolling (resetScroll (run es initial))"
      by (simp add: resetScroll_fields)
    ultimately show ?thesis
      using fire_moves_view_live by blast
  qed
  have a: "resetScroll s = scrollTo 0 (stopAutoScroll s)"
    by (simp add: resetScroll_def)
  from b c d show ?thesis
    unfolding a [symmetric] by (simp add: resetScroll_fields)
qed

theorem resetScroll_zero_witness:
  "scrollIntervalRef (run [PressPlay, TimePasses 50, TimerFires 1] ready) = Some 1
   \<and> scrollViewRef (run [PressPlay, TimePasses 50, TimerFires 1] ready) = Some 2
   \<and> renders_main (run [PressPlay, TimePasses 50, TimerFires 1] ready)
   \<and> scrollViewRef (step PressHome (run [PressPlay, TimePasses 50, TimerFires 1] ready)) = Some 0
   \<and> isScrolling (step PressHome (run [PressPlay, TimePasses 50, TimerFires 1] ready)) = False
   \<and> timers (resetScroll (run [PressPlay, TimePasses 50, TimerFires 1] ready)) 1 = None"
proof -
  define s where "s = run [PressPlay, TimePasses 50, TimerFires 1] ready"
  have a: "scrollIntervalRef s = Some 1" "scrollViewRef s = Some 2" "renders_main s"
    by (simp_all add: s_def ready_eq session_defs)
  note th = resetScroll_zero [of s "[]", THEN conjunct2]
  from th a have "scrollViewRef (step PressHome s) = Some 0"
    and "isScrolling (step PressHome s) = False"
    and "timers (resetScroll s) 1 = None"
    by simp_all
  with a show ?thesis unfolding s_def by blast
qed

text \<open>
  C9. \<open>startAutoScroll\<close>, when it starts anything, creates an interval of 50 ms whose
  closure starts at position zero and holds the scroll speed of that moment; the speed
  buttons do not touch the timers; and a firing of a scroll interval moves the view to
  the position of the closure plus the speed it captured, whatever the scroll speed and
  the offset of the view are by then.
\<close>

theorem autoscroll_speed_captured:
  "(selectedScript s \<noteq> None \<and> \<not> isScrolling s \<longrightarrow>
      isScrolling (startAutoScroll s)
      \<and> scrollIntervalRef (startAutoScroll s) = Some (next_timer s)
      \<and> timers (startAutoScroll s) (next_timer s) =
          Some \<lparr>callback = ScrollTick 0 (scrollSpeed s), delay = 50, repeats = True,
                due = now s + 50\<rparr>)
   \<and> timers (increaseSpeed s) = timers s
   \<and> timers (decreaseSpeed s) = timers s
   \<and> (\<forall>h t p v. timers s h = Some t \<and> callback t = ScrollTick p v \<and> due t \<le> now s \<longrightarrow>
         scrollViewRef (fire h s) = map_option (\<lambda>_. p + v) (scrollViewRef s)
         \<and> map_option callback (timers (fire h s) h) = Some (ScrollTick (p + v) v))"
proof -
  have "selectedScript s \<noteq> None \<and> \<not> isScrolling s \<longrightarrow>
      isScrolling (startAutoScroll s)
      \<and> scrollIntervalRef (startAutoScroll s) = Some (next_timer s)
      \<and> timers (startAutoScroll s) (next_timer s) =
          Some \<lparr>callback = ScrollTick 0 (scrollSpeed s), delay = 50, repeats = True,
                due = now s + 50\<rparr>"
    by (simp add: startAutoScroll_def setInterval_def)
  then show ?thesis
    using fire_scroll_tick [of s] by (simp add: speed_buttons_timers)
qed

theorem autoscroll_speed_captured_witness:
  "selectedScript ready \<noteq> None \<and> \<not> isScrolling ready \<and> scrollSpeed ready = 2
   \<and> timers (startAutoScroll ready) 1 =
       Some \<lparr>callback = ScrollTick 0 2, delay = 50, repeats = True, due = 50\<rparr>
   \<and> scrollSpeed (run [PressPlay, SpeedPlus, SpeedPlus, TimePasses 50] ready) = 4
   \<and> scrollViewRef (run [PressPlay, SpeedPlus, SpeedPlus, TimePasses 50] ready) = Some 0
   \<and> scrollViewRef (fire 1 (run [PressPlay, SpeedPlus, SpeedPlus, TimePasses 50] ready)) = Some 2"
proof -
  let ?s = "run [PressPlay, SpeedPlus, SpeedPlus, TimePasses 50] ready"
  let ?t = "\<lparr>callback = ScrollTick 0 2, delay = 50, repeats = True, due = 50\<rparr>"
  have r: "selectedScript ready \<noteq> None" "\<not> isScrolling ready" "scrollSpeed ready = 2"
    "next_timer ready = 1" "now ready = 0"
    by (simp_all add: ready_eq)
  have s: "timers ?s 1 = Some ?t" "callback ?t = ScrollTick 0 2" "due ?t \<le> now ?s"
    "scrollSpeed ?s = 4" "scrollViewRef ?s = Some 0"
    by (simp_all add: ready_eq session_defs)
  from autoscroll_speed_captured [of ready] r
  have "timers (startAutoScroll ready) 1 = Some ?t" by simp
  moreover from autoscroll_speed_captured [of ?s] s(1,2,3)
  have "scrollViewRef (fire 1 ?s) = map_option (\<lambda>_. 0 + 2) (scrollViewRef ?s)" by blast
  ultimately show ?thesis using r s by simp
qed

section \<open>Recording\<close>

text \<open>
  C1, as the code has it. The statement that the four conditions are reported by four distinct
  messages fails: the camera permission and the microphone permission are tested by one
  condition and share one message. With the camera view mounted, the state without the
  camera permission and the state without the microphone permission show the same alert;
  and in a session, where a missing permission of either kind replaces the main view and
  its camera, both show the alert of the first check, that the camera is not there.
\<close>

theorem startRecording_messages_counterexample:
  "cameraRef camera_denied \<and> hasCameraPermission camera_denied = Some False
   \<and> hasAudioPermission camera_denied = Some True
   \<and> hasMediaLibraryPermission camera_denied = Some True \<and> cameraReady camera_denied
   \<and> cameraRef microphone_denied \<and> hasCameraPermission microphone_denied = Some True
   \<and> hasAudioPermission microphone_denied = Some False
   \<and> hasMediaLibraryPermission microphone_denied = Some True \<and> cameraReady microphone_denied
   \<and> alerts (startRecording camera_denied) =
       [(''Error'', ''Camera and microphone permissions required'')]
   \<and> alerts (startRecording microphone_denied) =
       [(''Error'', ''Camera and microphone permissions required'')]
   \<and> alerts (run [PermissionsSettled False True True, SelectedScriptLoaded (Some ex_script),
                   FocusGained, CameraReady, PressRecord] initial) =
       [(''Error'', ''Camera not ready'')]
   \<and> alerts (run [PermissionsSettled True False True, SelectedScriptLoaded (Some ex_script),
                   FocusGained, CameraReady, PressRecord] initial) =
       [(''Error'', ''Camera not ready'')]"
  by (simp add: camera_denied_def microphone_denied_def ready_eq initial_def session_defs)

text \<open>
  C1, amended. Whenever one of the four conditions is false, \<open>startRecording\<close> appends
  one alert titled Error and changes nothing else, so the recording status stays as it
  was. The checks are made in this order: no camera view, with a message of its own;
  camera or microphone permission missing, with one message for both; media-library
  permission missing; camera not ready. The last three messages are pairwise distinct.
\<close>

theorem startRecording_refused:
  assumes "\<not> (truthy (hasCameraPermission s) \<and> truthy (hasAudioPermission s)
              \<and> truthy (hasMediaLibraryPermission s) \<and> cameraReady s)"
  shows "startRecording s =
     s\<lparr>alerts := alerts s @
         [(''Error'',
           if \<not> cameraRef s then ''Camera not ready''
           else if \<not> truthy (hasCameraPermission s) \<or> \<not> truthy (hasAudioPermission s)
             then ''Camera and microphone permissions required''
           else if \<not> truthy (hasMediaLibraryPermission s)
             then ''Media library permission required''
           else ''Camera is not ready. Please wait a moment and try again.'')]\<rparr>
   \<and> recordingStatus (startRecording s) = recordingStatus s
   \<and> ''Camera and microphone permissions required'' \<noteq> ''Media library permission required''
   \<and> ''Camera and microphone permissions required'' \<noteq>
       ''Camera is not ready. Please wait a moment and try again.''
   \<and> ''Media library permission required'' \<noteq>
       ''Camera is not ready. Please wait a moment and try again.''"
  using assms by (auto simp add: startRecording_def alert_def)

theorem startRecording_refused_witness:
  "hasMediaLibraryPermission
     (run [PermissionsSettled True True False, SelectedScriptLoaded (Some ex_script),
           FocusGained, CameraReady] initial) = Some False
   \<and> recordingStatus
     (run [PermissionsSettled True True False, SelectedScriptLoaded (Some ex_script),
           FocusGained, CameraReady] initial) = Idle
   \<and> recordingStatus (startRecording
     (run [PermissionsSettled True True False, SelectedScriptLoaded (Some ex_script),
           FocusGained, CameraReady] initial)) = Idle
   \<and> alerts (startRecording
     (run [PermissionsSettled True True False, SelectedScriptLoaded (Some ex_script),
           FocusGained, CameraReady] initial)) = [(''Error'', ''Media library permission required'')]"
proof -
  define s where "s = run [PermissionsSettled True True False,
      SelectedScriptLoaded (Some ex_script), FocusGained, CameraReady] initial"
  have f: "hasMediaLibraryPermission s = Some False" "hasCameraPermission s = Some True"
    "hasAudioPermission s = Some True" "cameraRef s" "recordingStatus s = Idle" "alerts s = []"
    by (simp_all add: s_def initial_def session_defs)
  then have h: "\<not> (truthy (hasCameraPermission s) \<and> truthy (hasAudioPermission s)
              \<and> truthy (hasMediaLibraryPermission s) \<and> cameraReady s)"
    by (simp add: truthy_def)
  note th = startRecording_refused [OF h]
  from th have "recordingStatus (startRecording s) = recordingStatus s" by blast
  moreover from th have "alerts (startRecording s) = alerts s @
         [(''Error'',
           if \<not> cameraRef s then ''Camera not ready''
           else if \<not> truthy (hasCameraPermission s) \<or> \<not> truthy (hasAudioPermission s)
             then ''Camera and microphone permissions required''
           else if \<not> truthy (hasMediaLibraryPermission s)
             then ''Media library permission required''
           else ''Camera is not ready. Please wait a moment and try again.'')]"
    by (elim conjE) (erule ssubst, simp)
  ultimately show ?thesis using f unfolding s_def [symmetric] by (simp add: truthy_def)
qed

text \<open>
  C4. When the promise of the save settles, the status becomes saved exactly when the
  library accepted the file and error when it rejected it. When the camera resolves with
  no video, or with a video whose uri is empty, the status becomes error with the alert
  that no video data was recorded and the library is never called; only a video with a
  uri leads to saving.
\<close>

theorem saving_outcome:
  "recordingStatus (startRecording_saved r s) =
     (case r of Resolved _ \<Rightarrow> Saved | Rejected _ \<Rightarrow> Error)
   \<and> recordingStatus (step (SaveSettled r) s) =
     (case r of Resolved _ \<Rightarrow> Saved | Rejected _ \<Rightarrow> Error)
   \<and> recordingStatus (startRecording_recorded (Resolved v) s) =
     (case v of None \<Rightarrow> Error | Some vid \<Rightarrow> if uri vid = [] then Error else Saving)
   \<and> recordingStatus (step (RecordSettled (Resolved v)) s) =
     (case v of None \<Rightarrow> Error | Some vid \<Rightarrow> if uri vid = [] then Error else Saving)
   \<and> alerts (startRecording_saved r s) =
     alerts s @ [case r of Resolved _ \<Rightarrow> (''Success'', ''Video saved to gallery!'')
                 | Rejected _ \<Rightarrow> (''Error'', ''Failed to save video to gallery'')]
   \<and> alerts (startRecording_recorded (Resolved v) s) =
     (case v of None \<Rightarrow> alerts s @ [(''Error'', ''No video data was recorded'')]
      | Some vid \<Rightarrow> if uri vid = [] then alerts s @ [(''Error'', ''No video data was recorded'')]
                    else alerts s)"
proof -
  have a: "recordingStatus (startRecording_saved r s) =
     (case r of Resolved _ \<Rightarrow> Saved | Rejected _ \<Rightarrow> Error)"
    by (simp add: startRecording_saved_def startRecording_finish_def cool_down_def
          setTimeout_def alert_def split: settled.splits)
  have b: "recordingStatus (startRecording_recorded (Resolved v) s) =
     (case v of None \<Rightarrow> Error | Some vid \<Rightarrow> if uri vid = [] then Error else Saving)"
    by (simp add: startRecording_recorded_def startRecording_finish_def cool_down_def
          setTimeout_def alert_def stopRecordingTimer_def clearInterval_def Let_def
          split: option.splits)
  have c: "alerts (startRecording_saved r s) =
     alerts s @ [case r of Resolved _ \<Rightarrow> (''Success'', ''Video saved to gallery!'')
                 | Rejected _ \<Rightarrow> (''Error'', ''Failed to save video to gallery'')]"
    by (simp add: startRecording_saved_def startRecording_finish_def cool_down_def
          setTimeout_def alert_def split: settled.splits)
  have d: "alerts (startRecording_recorded (Resolved v) s) =
     (case v of None \<Rightarrow> alerts s @ [(''Error'', ''No video data was recorded'')]
      | Some vid \<Rightarrow> if uri vid = [] then alerts s @ [(''Error'', ''No video data was recorded'')]
                    else alerts s)"
    by (simp add: startRecording_recorded_def startRecording_finish_def cool_down_def
          setTimeout_def alert_def stopRecordingTimer_def clearInterval_def Let_def
          split: option.splits)
  have e: "recordingStatus (step e s) = recordingStatus (handle e s)" for e
    by (simp add: step_def commit_def)
  from a b c d show ?thesis by (simp only: e handle.simps simp_thms)
qed

theorem saving_outcome_witness:
  "recordingStatus (run [PressRecord, RecordSettled (Resolved (Some ex_video))] ready) = Saving
   \<and> recordingStatus
        (run [PressRecord, RecordSettled (Resolved (Some ex_video)), SaveSettled (Resolved ())]
           ready) = Saved
   \<and> recordingStatus
        (run [PressRecord, RecordSettled (Resolved (Some ex_video)),
              SaveSettled (Rejected NotAnError)] ready) = Error
   \<and> recordingStatus (run [PressRecord, RecordSettled (Resolved None)] ready) = Error
   \<and> recordingStatus
        (run [PressRecord, RecordSettled (Resolved (Some \<lparr>uri = []\<rparr>))] ready) = Error"
proof -
  have u: "uri ex_video \<noteq> []" by (simp add: ex_video_def utf16_def)
  note th = saving_outcome [THEN conjunct2]
  from th [of "Resolved ()"] th [of "Rejected NotAnError"] th [of _ _ "Some ex_video"]
    th [of _ _ None] th [of _ _ "Some \<lparr>uri = []\<rparr>"] u
  show ?thesis by simp
qed

section \<open>Screen focus\<close>

text \<open>
  C2, as the code has it. The statement that a focus transition during a recording cancels
  any running timer fails, and so does the reset on the transition away from the screen.
  In the session that is recording and scrolling, the auto-scroll interval survives the
  focus effect and moves the view at its next firing; and when the screen loses focus
  the status stays recording, the camera key keeps its value and \<open>cameraReady\<close> stays
  true.
\<close>

theorem focus_reset_counterexample:
  "recordingStatus recording_session = Recording
   \<and> timers recording_session 1 =
       Some \<lparr>callback = ScrollTick 0 2, delay = 50, repeats = True, due = 50\<rparr>
   \<and> timers (step FocusGained recording_session) 1 =
       Some \<lparr>callback = ScrollTick 0 2, delay = 50, repeats = True, due = 50\<rparr>
   \<and> scrollViewRef (step (TimerFires 1) (step FocusGained recording_session)) = Some 2
   \<and> timers (step FocusLost recording_session) 1 =
       Some \<lparr>callback = ScrollTick 0 2, delay = 50, repeats = True, due = 50\<rparr>
   \<and> recordingStatus (step FocusLost recording_session) = Recording
   \<and> cameraKey (step FocusLost recording_session) = cameraKey recording_session
   \<and> cameraReady (step FocusLost recording_session)"
  by (simp add: recording_session_eq session_defs)

lemma handle_cameraReady:
  "e \<noteq> CameraReady \<Longrightarrow> cameraReady (handle e s) \<Longrightarrow> cameraReady s"
  by (cases e)
     (simp_all add: handler_defs Let_def
        split: option.splits settled.splits callback.splits if_splits)

lemma step_cameraReady:
  assumes "e \<noteq> CameraReady" and "\<not> cameraReady s"
  shows "\<not> cameraReady (step e s)"
proof -
  have "cameraReady (step e s) = cameraReady (handle e s)"
    by (simp add: step_def commit_def)
  with handle_cameraReady [OF assms(1)] assms(2) show ?thesis by blast
qed

lemma run_cameraReady:
  "CameraReady \<notin> set es \<Longrightarrow> \<not> cameraReady s \<Longrightarrow> \<not> cameraReady (run es s)"
proof (induction es arbitrary: s)
  case Nil
  then show ?case by simp
next
  case (Cons e es)
  from Cons.prems have "e \<noteq> CameraReady" "CameraReady \<notin> set es" by auto
  with Cons.IH [of "step e s"] step_cameraReady [of e s] Cons.prems(2)
  show ?case by simp
qed

lemma focusEffect_fields:
  "recordingStatus (focusEffect s) = Idle" "isRecording (focusEffect s) = False"
  "recordingDuration (focusEffect s) = 0" "cameraKey (focusEffect s) = cameraKey s + 1"
  "cameraReady (focusEffect s) = False" "recordingTimerRef (focusEffect s) = None"
  "timers (focusEffect s) h = (if recordingTimerRef s = Some h then None else timers s h)"
  by (simp_all add: focusEffect_def clearInterval_def Let_def split: option.splits)

lemma focusCleanup_eq: "focusCleanup s = stopRecordingTimer s"
  by (simp add: focusCleanup_def stopRecordingTimer_def)

lemma focusCleanup_fields:
  "recordingStatus (focusCleanup s) = recordingStatus s"
  "cameraKey (focusCleanup s) = cameraKey s" "cameraReady (focusCleanup s) = cameraReady s"
  "timers (focusCleanup s) h = (if recordingTimerRef s = Some h then None else timers s h)"
  by (simp_all add: focusCleanup_def stopRecordingTimer_def clearInterval_def
        split: option.splits)

text \<open>
  C2, amended. When the screen comes into focus, from every state and so also while
  recording, the focus effect sets the status to idle, \<open>isRecording\<close> to false and the
  duration to zero, adds one to the camera key, sets \<open>cameraReady\<close> to false and cancels
  the recording timer the ref holds; every other timer is left as it is. When the screen
  loses focus, only that recording timer is cancelled. After the focus effect
  \<open>cameraReady\<close> stays false through every sequence of events without the ready signal
  of the camera, and that signal sets it.
\<close>

theorem focus_reset:
  "recordingStatus (focusEffect s) = Idle
   \<and> isRecording (focusEffect s) = False
   \<and> recordingDuration (focusEffect s) = 0
   \<and> cameraKey (focusEffect s) = cameraKey s + 1
   \<and> cameraReady (focusEffect s) = False
   \<and> recordingTimerRef (focusEffect s) = None
   \<and> (\<forall>h. timers (focusEffect s) h = (if recordingTimerRef s = Some h then None else timers s h))
   \<and> focusCleanup s = stopRecordingTimer s
   \<and> recordingStatus (focusCleanup s) = recordingStatus s
   \<and> cameraKey (focusCleanup s) = cameraKey s
   \<and> cameraReady (focusCleanup s) = cameraReady s
   \<and> (\<forall>h. timers (focusCleanup s) h = (if recordingTimerRef s = Some h then None else timers s h))
   \<and> (CameraReady \<notin> set es \<longrightarrow> \<not> cameraReady (run es (step FocusGained s)))
   \<and> cameraReady (step CameraReady (run es (step FocusGained s)))"
proof -
  have a: "\<not> cameraReady (step FocusGained s)"
    by (simp add: step_def commit_def focusEffect_fields)
  have A: "recordingStatus (focusEffect s) = Idle
   \<and> isRecording (focusEffect s) = False
   \<and> recordingDuration (focusEffect s) = 0
   \<and> cameraKey (focusEffect s) = cameraKey s + 1
   \<and> cameraReady (focusEffect s) = False
   \<and> recordingTimerRef (focusEffect s) = None
   \<and> (\<forall>h. timers (focusEffect s) h = (if recordingTimerRef s = Some h then None else timers s h))"
    by (simp add: focusEffect_fields)
  have B: "focusCleanup s = stopRecordingTimer s"
    by (rule focusCleanup_eq)
  have C: "recordingStatus (focusCleanup s) = recordingStatus s
   \<and> cameraKey (focusCleanup s) = cameraKey s
   \<and> cameraReady (focusCleanup s) = cameraReady s
   \<and> (\<forall>h. timers (focusCleanup s) h = (if recordingTimerRef s = Some h then None else timers s h))"
    by (simp add: focusCleanup_fields)
  have D: "CameraReady \<notin> set es \<longrightarrow> \<not> cameraReady (run es (step FocusGained s))"
    using run_cameraReady [OF _ a] by blast
  have E: "cameraReady (step CameraReady (run es (step FocusGained s)))"
    by (simp add: step_def commit_def onCameraReady_def)
  from A B C D E show ?thesis by (elim conjE, intro conjI) assumption+
qed

theorem focus_reset_witness:
  "recordingStatus recording_session = Recording
   \<and> recordingTimerRef recording_session = Some 2
   \<and> cameraKey recording_session = 1
   \<and> recordingStatus (focusEffect recording_session) = Idle
   \<and> cameraKey (focusEffect recording_session) = 2
   \<and> timers (focusEffect recording_session) 2 = None
   \<and> timers (focusEffect recording_session) 1 = timers recording_session 1
   \<and> \<not> cameraReady (run [PressPlay, TimePasses 50, PressRecord]
                        (step FocusGained recording_session))"
proof -
  have f: "recordingStatus recording_session = Recording"
    "recordingTimerRef recording_session = Some 2" "cameraKey recording_session = 1"
    by (simp_all add: recording_session_eq)
  have n: "CameraReady \<notin> set [PressPlay, TimePasses 50, PressRecord]" by simp
  note th = focus_reset [of recording_session "[PressPlay, TimePasses 50, PressRecord]"]
  from th n have "\<not> cameraReady (run [PressPlay, TimePasses 50, PressRecord]
                        (step FocusGained recording_session))"
    by blast
  moreover from th f have "recordingStatus (focusEffect recording_session) = Idle"
    "cameraKey (focusEffect recording_session) = 2"
    "timers (focusEffect recording_session) 2 = None"
    "timers (focusEffect recording_session) 1 = timers recording_session 1"
    by simp_all
  ultimately show ?thesis using f by blast
qed

section \<open>The end of a recording\<close>

text \<open>
  C3, as the code has it. The statement that the elapsed time is back at zero no later than
  the moment the status becomes saving fails: entering saving stops the recording timer
  and leaves the duration at its last sample. In the session below the timer has sampled
  100 ms, and the duration is still 100 when the status is saving.
\<close>

theorem elapsed_reset_counterexample:
  "recordingStatus (run [PressRecord, TimePasses 100, TimerFires 1] ready) = Recording
   \<and> recordingDuration (run [PressRecord, TimePasses 100, TimerFires 1] ready) = 100
   \<and> recordingStatus
        (run [PressRecord, TimePasses 100, TimerFires 1,
              RecordSettled (Resolved (Some ex_video))] ready) = Saving
   \<and> recordingDuration
        (run [PressRecord, TimePasses 100, TimerFires 1,
              RecordSettled (Resolved (Some ex_video))] ready) = 100"
  by (simp add: ready_eq ex_video_def utf16_def session_defs)

lemma commit_frame:
  "timers (commit s) = timers s" "recordingStatus (commit s) = recordingStatus s"
  "recordingDuration (commit s) = recordingDuration s" "isRecording (commit s) = isRecording s"
  "next_timer (commit s) = next_timer s" "now (commit s) = now s"
  by (simp_all add: commit_def)

lemma handle_terminal:
  assumes "recordingStatus (handle e s) = Saved \<or> recordingStatus (handle e s) = Error"
    and "recordingStatus (handle e s) \<noteq> recordingStatus s"
  shows "timers (handle e s) (next_timer s) =
           Some \<lparr>callback = StatusIdle, delay = 2000, repeats = False, due = now s + 2000\<rparr>
         \<and> recordingDuration (handle e s) = 0 \<and> \<not> isRecording (handle e s)"
  using assms
  by (cases e)
     (auto simp add: handler_defs Let_def
        split: option.splits settled.splits callback.splits if_splits)


lemma fire_cool_down:
  assumes "timers s h = Some t" and "callback t = StatusIdle" and "\<not> repeats t"
  shows "now s < due t \<Longrightarrow> fire h s = s"
    and "due t \<le> now s \<Longrightarrow> recordingStatus (fire h s) = Idle \<and> timers (fire h s) h = None"
  using assms by (simp_all add: fire_def run_callback_def)

lemma fire_early: "timers s h = Some t \<Longrightarrow> now s < due t \<Longrightarrow> fire h s = s"
  by (simp add: fire_def)

lemma handle_keeps_timer:
  assumes "h < next_timer s" and "scrollIntervalRef s \<noteq> Some h"
    and "recordingTimerRef s \<noteq> Some h" and "e \<noteq> TimerFires h"
  shows "timers (handle e s) h = timers s h"
proof (cases e)
  case (TimerFires h')
  with assms(4) show ?thesis by (simp add: fire_timers_other)
next
  case (RecordSettled r)
  with assms(1-3) show ?thesis
    by (cases r)
       (auto simp add: startRecording_recorded_def startRecording_catch_def
          startRecording_finish_def cool_down_def setTimeout_def stopRecordingTimer_def
          clearInterval_def alert_def Let_def split: option.splits)
next
  case (SaveSettled r)
  with assms(1-3) show ?thesis
    by (cases r)
       (auto simp add: startRecording_saved_def startRecording_finish_def cool_down_def
          setTimeout_def alert_def)
next
  case (PressStop r)
  with assms(1-3) show ?thesis
    by (cases r)
       (auto simp add: stopRecording_def cool_down_def setTimeout_def stopRecordingTimer_def
          clearInterval_def split: option.splits)
qed (use assms(1-3) in \<open>auto simp add: requestPermissions_done_def loadSelectedScript_done_def
      focusEffect_def focusCleanup_def onCameraReady_def startRecording_def
      startRecordingTimer_def startAutoScroll_def stopAutoScroll_def resetScroll_def
      decreaseSpeed_def increaseSpeed_def decreaseFont_def increaseFont_def time_passes_def
      setInterval_def clearInterval_def alert_def scrollTo_def Let_def split: option.splits\<close>)

lemma cool_down_persists:
  assumes ok: "timers_ok s" and t: "timers s h = Some t" "callback t = StatusIdle"
  shows "\<not> repeats t" "delay t = 2000"
    "timers (step e s) h = Some t \<or> (e = TimerFires h \<and> due t \<le> now s)"
proof -
  from ok t show r: "\<not> repeats t" "delay t = 2000"
    unfolding timers_ok_def by blast+
  from ok t have f: "h < next_timer s" "scrollIntervalRef s \<noteq> Some h"
    "recordingTimerRef s \<noteq> Some h"
    unfolding timers_ok_def by blast+
  show "timers (step e s) h = Some t \<or> (e = TimerFires h \<and> due t \<le> now s)"
  proof (cases "e = TimerFires h")
    case False
    with handle_keeps_timer [OF f] t(1) show ?thesis
      by (simp add: step_def commit_frame)
  next
    case True
    show ?thesis
    proof (cases "now s < due t")
      case True
      with fire_early [OF t(1)] t(1) \<open>e = TimerFires h\<close> show ?thesis
        by (simp add: step_def commit_frame)
    next
      case False
      with \<open>e = TimerFires h\<close> show ?thesis by simp
    qed
  qed
qed

lemma entering_saving:
  assumes "uri vid \<noteq> []"
  shows "recordingStatus (startRecording_recorded (Resolved (Some vid)) s) = Saving"
    and "recordingTimerRef (startRecording_recorded (Resolved (Some vid)) s) = None"
    and "recordingTimerRef s = Some h \<Longrightarrow>
           timers (startRecording_recorded (Resolved (Some vid)) s) h = None"
    and "recordingDuration (startRecording_recorded (Resolved (Some vid)) s) =
           recordingDuration s"
  using assms
  by (simp_all add: startRecording_recorded_def stopRecordingTimer_def clearInterval_def
        Let_def split: option.splits)

text \<open>
  C3, amended. Every event that changes the status to saved or to error schedules, in
  the same step, a one-shot timer due 2000 ms later, and leaves the duration at zero
  and \<open>isRecording\<close> false. Such a timer does nothing when fired before it is due; fired
  once due, it sets the status to idle and is gone. In a session a pending cool-down
  timer is a one-shot of 2000 ms that no event removes or changes, except its own firing
  when due. Entering saving stops the recording timer and keeps the duration as it was;
  the duration is reset when the status becomes saved or error.
\<close>

theorem recording_cool_down:
  "((recordingStatus (step e s) = Saved \<or> recordingStatus (step e s) = Error)
      \<and> recordingStatus (step e s) \<noteq> recordingStatus s \<longrightarrow>
      timers (step e s) (next_timer s) =
        Some \<lparr>callback = StatusIdle, delay = 2000, repeats = False, due = now s + 2000\<rparr>
      \<and> recordingDuration (step e s) = 0 \<and> \<not> isRecording (step e s))
   \<and> (\<forall>h t. timers s h = Some t \<and> callback t = StatusIdle \<and> \<not> repeats t \<longrightarrow>
         (now s < due t \<longrightarrow> fire h s = s)
         \<and> (due t \<le> now s \<longrightarrow> recordingStatus (fire h s) = Idle \<and> timers (fire h s) h = None))
   \<and> (\<forall>h t. timers (run es initial) h = Some t \<and> callback t = StatusIdle \<longrightarrow>
         \<not> repeats t \<and> delay t = 2000
         \<and> (timers (step e (run es initial)) h = Some t
             \<or> (e = TimerFires h \<and> due t \<le> now (run es initial))))
   \<and> (uri vid \<noteq> [] \<longrightarrow>
         recordingStatus (startRecording_recorded (Resolved (Some vid)) s) = Saving
         \<and> recordingTimerRef (startRecording_recorded (Resolved (Some vid)) s) = None
         \<and> (\<forall>h. recordingTimerRef s = Some h \<longrightarrow>
                timers (startRecording_recorded (Resolved (Some vid)) s) h = None)
         \<and> recordingDuration (startRecording_recorded (Resolved (Some vid)) s) =
             recordingDuration s)"
proof -
  have A: "(recordingStatus (step e s) = Saved \<or> recordingStatus (step e s) = Error)
      \<and> recordingStatus (step e s) \<noteq> recordingStatus s \<longrightarrow>
      timers (step e s) (next_timer s) =
        Some \<lparr>callback = StatusIdle, delay = 2000, repeats = False, due = now s + 2000\<rparr>
      \<and> recordingDuration (step e s) = 0 \<and> \<not> isRecording (step e s)"
    unfolding step_def commit_frame using handle_terminal [of e s] by blast
  have B: "\<forall>h t. timers s h = Some t \<and> callback t = StatusIdle \<and> \<not> repeats t \<longrightarrow>
         (now s < due t \<longrightarrow> fire h s = s)
         \<and> (due t \<le> now s \<longrightarrow> recordingStatus (fire h s) = Idle \<and> timers (fire h s) h = None)"
    using fire_cool_down [of s] by blast
  have C: "\<forall>h t. timers (run es initial) h = Some t \<and> callback t = StatusIdle \<longrightarrow>
         \<not> repeats t \<and> delay t = 2000
         \<and> (timers (step e (run es initial)) h = Some t
             \<or> (e = TimerFires h \<and> due t \<le> now (run es initial)))"
    using cool_down_persists [OF timers_ok_reachable, of es] by blast
  have D: "uri vid \<noteq> [] \<longrightarrow>
         recordingStatus (startRecording_recorded (Resolved (Some vid)) s) = Saving
         \<and> recordingTimerRef (startRecording_recorded (Resolved (Some vid)) s) = None
         \<and> (\<forall>h. recordingTimerRef s = Some h \<longrightarrow>
                timers (startRecording_recorded (Resolved (Some vid)) s) h = None)
         \<and> recordingDuration (startRecording_recorded (Resolved (Some vid)) s) =
             recordingDuration s"
    using entering_saving [of vid s] by blast
  from A B C D show ?thesis by (intro conjI) assumption+
qed

theorem recording_cool_down_witness:
  "recordingStatus saving_session = Saving
   \<and> recordingDuration saving_session = 100
   \<and> recordingStatus (step (SaveSettled (Resolved ())) saving_session) = Saved
   \<and> timers (step (SaveSettled (Resolved ())) saving_session) 2 =
       Some \<lparr>callback = StatusIdle, delay = 2000, repeats = False, due = 2100\<rparr>
   \<and> recordingDuration (step (SaveSettled (Resolved ())) saving_session) = 0
   \<and> timers (run [SaveSettled (Resolved ()), FocusGained] saving_session) 2 =
       Some \<lparr>callback = StatusIdle, delay = 2000, repeats = False, due = 2100\<rparr>
   \<and> fire 2 (run [SaveSettled (Resolved ()), TimePasses 1999] saving_session) =
       run [SaveSettled (Resolved ()), TimePasses 1999] saving_session
   \<and> recordingStatus (fire 2 (run [SaveSettled (Resolved ()), TimePasses 2000] saving_session))
       = Idle"
proof -
  define t where "t = \<lparr>callback = StatusIdle, delay = 2000, repeats = False, due = 2100\<rparr>"
  define early where "early = run [SaveSettled (Resolved ()), TimePasses 1999] saving_session"
  define late where "late = run [SaveSettled (Resolved ()), TimePasses 2000] saving_session"
  define es where "es = [PermissionsSettled True True True,
      SelectedScriptLoaded (Some ex_script), FocusGained, CameraReady, PressRecord,
      TimePasses 100, TimerFires 1, RecordSettled (Resolved (Some ex_video)),
      SaveSettled (Resolved ())]"
  define rec where "rec = run [PressRecord, TimePasses 100, TimerFires 1] ready"
  have s: "recordingStatus saving_session = Saving" "next_timer saving_session = 2"
    "now saving_session = 100"
    "recordingStatus (step (SaveSettled (Resolved ())) saving_session) = Saved"
    by (simp_all add: saving_session_eq session_defs)
  have e: "timers early 2 = Some t" "now early < due t"
    and l: "timers late 2 = Some t" "due t \<le> now late"
    and c: "callback t = StatusIdle" "\<not> repeats t"
    by (simp_all add: early_def late_def t_def saving_session_eq session_defs)
  have r: "run es initial = step (SaveSettled (Resolved ())) saving_session"
    by (simp add: es_def saving_session_def ready_def)
  have p: "timers (run es initial) 2 = Some t"
    unfolding r by (simp add: t_def saving_session_eq session_defs)
  have v: "uri ex_video \<noteq> []" and d: "recordingDuration rec = 100"
    and g: "startRecording_recorded (Resolved (Some ex_video)) rec = saving_session"
    by (simp_all add: ex_video_def utf16_def rec_def saving_session_eq ready_eq session_defs)
  note th1 = recording_cool_down [of "SaveSettled (Resolved ())" saving_session es ex_video,
      THEN conjunct1]
  note th2e = recording_cool_down [of FocusGained early es ex_video,
      THEN conjunct2, THEN conjunct1, rule_format, of 2 t]
  note th2l = recording_cool_down [of FocusGained late es ex_video,
      THEN conjunct2, THEN conjunct1, rule_format, of 2 t]
  note th3 = recording_cool_down [of FocusGained saving_session es ex_video,
      THEN conjunct2, THEN conjunct2, THEN conjunct1, rule_format, of 2 t]
  note th4 = recording_cool_down [of FocusGained rec es ex_video,
      THEN conjunct2, THEN conjunct2, THEN conjunct2]
  from th1 s
  have a: "timers (step (SaveSettled (Resolved ())) saving_session) 2 =
       Some \<lparr>callback = StatusIdle, delay = 2000, repeats = False, due = 2100\<rparr>"
    and b: "recordingDuration (step (SaveSettled (Resolved ())) saving_session) = 0"
    by simp_all
  from th2e e c have f: "fire 2 early = early" by simp
  from th2l l c have i: "recordingStatus (fire 2 late) = Idle" by simp
  from th3 p c(1) have "timers (step FocusGained (run es initial)) 2 = Some t" by simp
  then have k: "timers (run [SaveSettled (Resolved ()), FocusGained] saving_session) 2 =
       Some \<lparr>callback = StatusIdle, delay = 2000, repeats = False, due = 2100\<rparr>"
    unfolding r t_def by simp
  from th4 v have "recordingDuration (startRecording_recorded (Resolved (Some ex_video)) rec) =
      recordingDuration rec"
    by simp
  with d g have m: "recordingDuration saving_session = 100" by simp
  from s(1,4) a b f i k m show ?thesis unfolding early_def late_def by (intro conjI) assumption+
qed

end
